theory Spec2Isabelle
  imports Main
begin

section \<open>Python values used by the price API\<close>

text \<open>
  A Python \<open>str\<close> is a sequence of Unicode code points. The product names of the
  catalog are not ASCII, and \<open>str.strip\<close> works on code points, so a string is a list
  of code points here, not a list of bytes.
\<close>

type_synonym pystr = "nat list"

definition ascii :: "string \<Rightarrow> pystr" where
  "ascii s = map of_char s"

text \<open>
  \<open>str.isspace\<close> on one code point: the code points that \<open>str.strip()\<close> without
  argument removes (U+0009..U+000D, U+001C..U+0020, U+0085, U+00A0, U+1680,
  U+2000..U+200A, U+2028, U+2029, U+202F, U+205F, U+3000).
\<close>

definition isspace :: "nat \<Rightarrow> bool" where
  "isspace c \<longleftrightarrow>
     (9 \<le> c \<and> c \<le> 13) \<or> (28 \<le> c \<and> c \<le> 32) \<or> c = 133 \<or> c = 160 \<or> c = 5760 \<or>
     (8192 \<le> c \<and> c \<le> 8202) \<or> c = 8232 \<or> c = 8233 \<or> c = 8239 \<or> c = 8287 \<or>
     c = 12288"

definition strip :: "pystr \<Rightarrow> pystr" where
  "strip s = rev (dropWhile isspace (rev (dropWhile isspace s)))"

text \<open>
  \<open>s.split(sep)\<close> for a separator of one code point. The result is never empty:
  \<open>''.split(',')\<close> is \<open>['']\<close>.
\<close>

fun split :: "nat \<Rightarrow> pystr \<Rightarrow> pystr list" where
  "split sep [] = [[]]"
| "split sep (c # cs) =
     (if c = sep then [] # split sep cs
      else (case split sep cs of
              [] \<Rightarrow> [[c]]
            | p # ps \<Rightarrow> (c # p) # ps))"

text \<open>Python compares strings code point by code point; a proper prefix is smaller.\<close>

fun str_le :: "pystr \<Rightarrow> pystr \<Rightarrow> bool" where
  "str_le [] ys = True"
| "str_le (x # xs) [] = False"
| "str_le (x # xs) (y # ys) = (x < y \<or> (x = y \<and> str_le xs ys))"

text \<open>
  A \<open>dict\<close> keeps its keys in insertion order, and the order decides which extremum
  \<open>min\<close> and \<open>max\<close> pick. A dict is an association list with distinct keys:
  \<open>k in d\<close> and \<open>d[k]\<close> are \<open>map_of d k\<close>, \<open>d.keys()\<close> is \<open>map fst d\<close>,
  \<open>d.items()\<close> is the list itself, and \<open>d[k] = v\<close> overwrites the value of a key
  in place or appends a new key at the end.
\<close>

fun dict_set :: "'k \<Rightarrow> 'v \<Rightarrow> ('k \<times> 'v) list \<Rightarrow> ('k \<times> 'v) list" where
  "dict_set k v [] = [(k, v)]"
| "dict_set k v (p # ps) = (if fst p = k then (k, v) # ps else p # dict_set k v ps)"

datatype py_error = ValueError

text \<open>
  \<open>min(xs, key=f)\<close> and \<open>max(xs, key=f)\<close>: the first element is the candidate, and a
  later element replaces it only when its key is strictly smaller (strictly greater).
  Both raise \<open>ValueError\<close> on an empty argument.
\<close>

fun min_loop :: "('a \<Rightarrow> int) \<Rightarrow> 'a \<Rightarrow> 'a list \<Rightarrow> 'a" where
  "min_loop key best [] = best"
| "min_loop key best (x # xs) =
     (if key x < key best then min_loop key x xs else min_loop key best xs)"

fun max_loop :: "('a \<Rightarrow> int) \<Rightarrow> 'a \<Rightarrow> 'a list \<Rightarrow> 'a" where
  "max_loop key best [] = best"
| "max_loop key best (x # xs) =
     (if key x > key best then max_loop key x xs else max_loop key best xs)"

definition py_min :: "('a \<Rightarrow> int) \<Rightarrow> 'a list \<Rightarrow> py_error + 'a" where
  "py_min key xs = (case xs of [] \<Rightarrow> Inl ValueError | x # rest \<Rightarrow> Inr (min_loop key x rest))"

definition py_max :: "('a \<Rightarrow> int) \<Rightarrow> 'a list \<Rightarrow> py_error + 'a" where
  "py_max key xs = (case xs of [] \<Rightarrow> Inl ValueError | x # rest \<Rightarrow> Inr (max_loop key x rest))"

section \<open>The catalog\<close>

record history_entry =
  date :: pystr
  price :: int

record product_record =
  current_price :: int
  last_update :: pystr
  history :: "history_entry list"

type_synonym catalog = "(pystr \<times> product_record) list"

definition product_A :: pystr where
  "product_A = [29986, 21697, 65]"

definition product_B :: pystr where
  "product_B = [29986, 21697, 66]"

definition product_C :: pystr where
  "product_C = [29986, 21697, 67]"

text \<open>
  The module-level dict \<open>price_data\<close>. Each \<open>last_update\<close> is a reading of the clock
  taken when the module is loaded; the three readings are parameters.
\<close>

definition price_data :: "pystr \<Rightarrow> pystr \<Rightarrow> pystr \<Rightarrow> catalog" where
  "price_data tA tB tC =
     [(product_A,
       \<lparr>current_price = 1200, last_update = tA,
        history = [\<lparr>date = ascii ''2024-01-01'', price = 1000\<rparr>,
                   \<lparr>date = ascii ''2024-01-15'', price = 1100\<rparr>,
                   \<lparr>date = ascii ''2024-02-01'', price = 1200\<rparr>]\<rparr>),
      (product_B,
       \<lparr>current_price = 850, last_update = tB,
        history = [\<lparr>date = ascii ''2024-01-01'', price = 900\<rparr>,
                   \<lparr>date = ascii ''2024-01-15'', price = 875\<rparr>,
                   \<lparr>date = ascii ''2024-02-01'', price = 850\<rparr>]\<rparr>),
      (product_C,
       \<lparr>current_price = 1500, last_update = tC,
        history = [\<lparr>date = ascii ''2024-01-01'', price = 1400\<rparr>,
                   \<lparr>date = ascii ''2024-01-15'', price = 1450\<rparr>,
                   \<lparr>date = ascii ''2024-02-01'', price = 1500\<rparr>]\<rparr>)]"

section \<open>Responses\<close>

text \<open>
  Every handler returns the dict it hands to \<open>jsonify\<close> and a status code. One
  constructor per shape of dict that the handlers build; the fields are listed in the
  order of the source:
  \<^item> \<open>AllPrices data timestamp\<close>: success, data, timestamp;
  \<^item> \<open>ProductPrice product data timestamp\<close>: success, product, data, timestamp;
  \<^item> \<open>ProductNotFound error available_products\<close>: failure, error, available_products;
  \<^item> \<open>PriceHistory product history timestamp\<close>: success, product, history, timestamp;
  \<^item> \<open>HistoryNotFound error\<close>: failure, error;
  \<^item> \<open>CompareInvalid error example\<close>: failure, error, example;
  \<^item> \<open>Comparison comparison cheapest most_expensive timestamp\<close>: success, comparison,
    cheapest (product, price), most_expensive (product, price), timestamp;
  \<^item> \<open>Failure e\<close>: failure, error; built by the \<open>except Exception\<close> branch.
\<close>

datatype body =
    AllPrices catalog pystr
  | ProductPrice pystr product_record pystr
  | ProductNotFound pystr "pystr list"
  | PriceHistory pystr "history_entry list" pystr
  | HistoryNotFound pystr
  | CompareInvalid pystr pystr
  | Comparison "(pystr \<times> int) list" "pystr \<times> int" "pystr \<times> int" pystr
  | Failure py_error

type_synonym response = "body \<times> nat"

text \<open>The value under the key \<open>success\<close>.\<close>

fun success :: "body \<Rightarrow> bool" where
  "success (AllPrices d t) = True"
| "success (ProductPrice p d t) = True"
| "success (ProductNotFound e a) = False"
| "success (PriceHistory p h t) = True"
| "success (HistoryNotFound e) = False"
| "success (CompareInvalid e x) = False"
| "success (Comparison c lo hi t) = True"
| "success (Failure e) = False"

text \<open>The value under the key \<open>available_products\<close>, when the dict has that key.\<close>

fun available_products :: "body \<Rightarrow> pystr list option" where
  "available_products (ProductNotFound e a) = Some a"
| "available_products b = None"

text \<open>The three message texts of the source, as code points.\<close>

definition not_found_prefix :: pystr where
  "not_found_prefix = [25214, 19981, 21040, 29986, 21697, 65306]"

definition invalid_names_error :: pystr where
  "invalid_names_error = [35531, 25552, 20379, 26377, 25928, 30340, 29986, 21697, 21517, 31281]"

definition compare_example :: pystr where
  "compare_example = ascii ''/api/prices/compare?products='' @ product_A @ ascii '','' @ product_B"

section \<open>The handlers\<close>

text \<open>
  \<open>price_data\<close> is a global of the module, so each handler takes the catalog as the
  state and returns it with the response. \<open>now\<close> is the reading of the clock that
  the handler puts under \<open>timestamp\<close>.
\<close>

definition get_all_prices :: "pystr \<Rightarrow> catalog \<Rightarrow> response \<times> catalog" where
  "get_all_prices now s = ((AllPrices s now, 200), s)"

definition get_product_price :: "pystr \<Rightarrow> pystr \<Rightarrow> catalog \<Rightarrow> response \<times> catalog" where
  "get_product_price product now s =
     (case map_of s product of
        Some r \<Rightarrow> ((ProductPrice product r now, 200), s)
      | None \<Rightarrow> ((ProductNotFound (not_found_prefix @ product) (map fst s), 404), s))"

definition get_price_history :: "pystr \<Rightarrow> pystr \<Rightarrow> catalog \<Rightarrow> response \<times> catalog" where
  "get_price_history product now s =
     (case map_of s product of
        Some r \<Rightarrow> ((PriceHistory product (history r) now, 200), s)
      | None \<Rightarrow> ((HistoryNotFound (not_found_prefix @ product), 404), s))"

text \<open>
  \<open>compare_prices\<close> in three parts. \<open>resolve_many\<close> is the loop that fills
  \<open>result\<close> from the list of names; \<open>compare\<close> is the rest of the \<open>try\<close> block,
  from the test of \<open>result\<close> to the response; \<open>compare_prices\<close> reads the query
  parameter \<open>products\<close> (absent: the default \<open>''\<close>), splits it at the commas and
  runs both.
\<close>

fun resolve_loop :: "catalog \<Rightarrow> pystr list \<Rightarrow> (pystr \<times> int) list \<Rightarrow> (pystr \<times> int) list" where
  "resolve_loop s [] result = result"
| "resolve_loop s (product # rest) result =
     (let product' = strip product in
      case map_of s product' of
        Some r \<Rightarrow> resolve_loop s rest (dict_set product' (current_price r) result)
      | None \<Rightarrow> resolve_loop s rest result)"

definition resolve_many :: "catalog \<Rightarrow> pystr list \<Rightarrow> (pystr \<times> int) list" where
  "resolve_many s products = resolve_loop s products []"

definition compare :: "(pystr \<times> int) list \<Rightarrow> pystr \<Rightarrow> response" where
  "compare result now =
     (if result = [] then (CompareInvalid invalid_names_error compare_example, 400)
      else (case py_min snd result of
              Inl e \<Rightarrow> (Failure e, 500)
            | Inr cheapest \<Rightarrow>
                (case py_max snd result of
                   Inl e \<Rightarrow> (Failure e, 500)
                 | Inr expensive \<Rightarrow> (Comparison result cheapest expensive now, 200))))"

definition compare_products :: "pystr list \<Rightarrow> pystr \<Rightarrow> catalog \<Rightarrow> response \<times> catalog" where
  "compare_products products now s = (compare (resolve_many s products) now, s)"

definition compare_prices :: "pystr option \<Rightarrow> pystr \<Rightarrow> catalog \<Rightarrow> response \<times> catalog" where
  "compare_prices arg now s =
     compare_products (split 44 (case arg of None \<Rightarrow> [] | Some a \<Rightarrow> a)) now s"

section \<open>Calendar dates\<close>

text \<open>
  The source keeps each date of a history as ISO 8601 text, \<open>YYYY-MM-DD\<close>.
  \<open>iso_date\<close> reads such a text as year, month and day, and \<open>date_le\<close> orders two
  texts by the dates they denote; a text of another form denotes no date and is ordered
  with nothing. \<open>str_le\<close> above is the order Python itself gives the two texts.
\<close>

definition digit :: "nat \<Rightarrow> nat option" where
  "digit c = (if 48 \<le> c \<and> c \<le> 57 then Some (c - 48) else None)"

fun number :: "nat \<Rightarrow> pystr \<Rightarrow> nat option" where
  "number acc [] = Some acc"
| "number acc (c # cs) = (case digit c of None \<Rightarrow> None | Some d \<Rightarrow> number (10 * acc + d) cs)"

definition iso_date :: "pystr \<Rightarrow> (nat \<times> nat \<times> nat) option" where
  "iso_date s =
     (case split 45 s of
        [y, m, d] \<Rightarrow>
          (if length y = 4 \<and> length m = 2 \<and> length d = 2
           then (case (number 0 y, number 0 m, number 0 d) of
                   (Some a, Some b, Some c) \<Rightarrow> Some (a, b, c)
                 | _ \<Rightarrow> None)
           else None)
      | _ \<Rightarrow> None)"

definition date_le :: "pystr \<Rightarrow> pystr \<Rightarrow> bool" where
  "date_le a b =
     (case (iso_date a, iso_date b) of
        (Some (y, m, d), Some (y', m', d')) \<Rightarrow>
          y < y' \<or> (y = y' \<and> (m < m' \<or> (m = m' \<and> d \<le> d')))
      | _ \<Rightarrow> False)"

section \<open>Dicts, the resolving loop and the extrema\<close>

lemma dict_set_keys: "map fst (dict_set k v d) = (if k \<in> fst ` set d then map fst d else map fst d @ [k])"
  by (induction d) auto

lemma dict_set_distinct: "distinct (map fst d) \<Longrightarrow> distinct (map fst (dict_set k v d))"
  by (simp add: dict_set_keys)

lemma map_of_dict_set: "map_of (dict_set k v d) = (map_of d)(k \<mapsto> v)"
  by (induction d) auto

text \<open>
  What \<open>strip\<close> computes: the one middle part of the string that is left when a run
  of whitespace is cut from each end and that neither begins nor ends with whitespace.
\<close>

lemma dropWhile_all: "\<forall>c\<in>set l. P c \<Longrightarrow> dropWhile P (l @ ys) = dropWhile P ys"
  by (induction l) auto

lemma dropWhile_keep: "k \<noteq> [] \<Longrightarrow> \<not> P (hd k) \<Longrightarrow> dropWhile P (k @ r) = k @ r"
  by (cases k) auto

lemma trim_both_ends:
  "\<exists>l r. n = l @ rev (dropWhile P (rev (dropWhile P n))) @ r \<and>
         (\<forall>c\<in>set l. P c) \<and> (\<forall>c\<in>set r. P c)"
proof -
  define m where "m = dropWhile P n"
  have n: "n = takeWhile P n @ m" by (simp add: m_def)
  have "rev (dropWhile P (rev m)) @ rev (takeWhile P (rev m)) =
          rev (takeWhile P (rev m) @ dropWhile P (rev m))" by (simp only: rev_append)
  also have "\<dots> = m" by simp
  finally have m: "m = rev (dropWhile P (rev m)) @ rev (takeWhile P (rev m))" by simp
  have "n = takeWhile P n @ rev (dropWhile P (rev m)) @ rev (takeWhile P (rev m))"
    using n m by simp
  moreover have "\<forall>c\<in>set (takeWhile P n). P c" by (auto dest: set_takeWhileD)
  moreover have "\<forall>c\<in>set (rev (takeWhile P (rev m))). P c" by (auto dest: set_takeWhileD)
  ultimately show ?thesis unfolding m_def by blast
qed

lemma trim_unique:
  assumes "n = l @ k @ r" "\<forall>c\<in>set l. P c" "\<forall>c\<in>set r. P c"
    and "k = [] \<or> (\<not> P (hd k) \<and> \<not> P (last k))"
  shows "rev (dropWhile P (rev (dropWhile P n))) = k"
proof (cases "k = []")
  case True
  then have "\<forall>c\<in>set n. P c" using assms(1-3) by auto
  then have d: "dropWhile P n = []" by (induction n) auto
  show ?thesis unfolding d True by simp
next
  case False
  with assms(4) have ends: "\<not> P (hd k)" "\<not> P (last k)" by auto
  have "dropWhile P n = k @ r"
    using assms(1,2) False ends(1) by (simp add: dropWhile_all dropWhile_keep)
  moreover have "dropWhile P (rev r @ rev k) = rev k"
  proof -
    have "dropWhile P (rev r @ rev k) = dropWhile P (rev k)"
      using assms(3) by (intro dropWhile_all) auto
    also have "\<dots> = rev k"
      using False ends(2) dropWhile_keep[of "rev k" P "[]"] by (simp add: hd_rev)
    finally show ?thesis .
  qed
  ultimately show ?thesis by simp
qed

lemma trim_ends:
  assumes "rev (dropWhile P (rev (dropWhile P n))) = k" "k \<noteq> []"
  shows "\<not> P (hd k) \<and> \<not> P (last k)"
proof -
  define m where "m = dropWhile P n"
  have k: "k = rev (dropWhile P (rev m))" using assms(1) by (simp add: m_def)
  then have d: "dropWhile P (rev m) \<noteq> []" using assms(2) by auto
  then have "\<not> P (hd (dropWhile P (rev m)))" by (rule hd_dropWhile)
  then have l: "\<not> P (last k)" using d by (simp add: k last_rev)
  have "rev (dropWhile P (rev m)) @ rev (takeWhile P (rev m)) =
          rev (takeWhile P (rev m) @ dropWhile P (rev m))" by (simp only: rev_append)
  also have "\<dots> = m" by simp
  finally have m: "m = k @ rev (takeWhile P (rev m))" by (simp add: k)
  then have "m \<noteq> []" using assms(2) by auto
  then have "\<not> P (hd m)" unfolding m_def by (rule hd_dropWhile)
  moreover have "hd m = hd k" using m assms(2) by (metis hd_append2)
  ultimately show ?thesis using l by simp
qed

lemma strip_iff:
  "strip n = k \<longleftrightarrow>
     (\<exists>l r. n = l @ k @ r \<and> (\<forall>c\<in>set l. isspace c) \<and> (\<forall>c\<in>set r. isspace c) \<and>
            (k = [] \<or> (\<not> isspace (hd k) \<and> \<not> isspace (last k))))"
proof
  assume s: "strip n = k"
  from trim_both_ends[of n isspace] obtain l r where
    "n = l @ k @ r" "\<forall>c\<in>set l. isspace c" "\<forall>c\<in>set r. isspace c"
    using s by (auto simp: strip_def)
  moreover have "k = [] \<or> (\<not> isspace (hd k) \<and> \<not> isspace (last k))"
    using trim_ends[of isspace n k] s by (auto simp: strip_def)
  ultimately show "\<exists>l r. n = l @ k @ r \<and> (\<forall>c\<in>set l. isspace c) \<and> (\<forall>c\<in>set r. isspace c) \<and>
            (k = [] \<or> (\<not> isspace (hd k) \<and> \<not> isspace (last k)))" by blast
next
  assume "\<exists>l r. n = l @ k @ r \<and> (\<forall>c\<in>set l. isspace c) \<and> (\<forall>c\<in>set r. isspace c) \<and>
            (k = [] \<or> (\<not> isspace (hd k) \<and> \<not> isspace (last k)))"
  then obtain l r where "n = l @ k @ r" "\<forall>c\<in>set l. isspace c" "\<forall>c\<in>set r. isspace c"
     "k = [] \<or> (\<not> isspace (hd k) \<and> \<not> isspace (last k))" by blast
  from trim_unique[OF this] show "strip n = k" by (simp add: strip_def)
qed

lemma resolve_loop_distinct:
  "distinct (map fst result) \<Longrightarrow> distinct (map fst (resolve_loop s products result))"
  by (induction products arbitrary: result) (auto simp: Let_def dict_set_distinct split: option.splits)

lemma map_of_resolve_loop:
  "map_of (resolve_loop s products result) k =
     (if k \<in> strip ` set products \<and> map_of s k \<noteq> None
      then map_option current_price (map_of s k) else map_of result k)"
  by (induction products arbitrary: result) (auto simp: Let_def map_of_dict_set split: option.splits)

lemma min_loop_split:
  assumes "pre = us @ best # vs" "\<forall>y\<in>set us. key best < key y" "\<forall>y\<in>set vs. key best \<le> key y"
  shows "\<exists>us' vs'. pre @ xs = us' @ min_loop key best xs # vs' \<and>
           (\<forall>y\<in>set us'. key (min_loop key best xs) < key y) \<and>
           (\<forall>y\<in>set vs'. key (min_loop key best xs) \<le> key y)"
  using assms
proof (induction xs arbitrary: pre best us vs)
  case Nil
  then show ?case by auto
next
  case (Cons x xs)
  show ?case
  proof (cases "key x < key best")
    case True
    have "pre @ [x] = (us @ best # vs) @ x # []" using Cons.prems(1) by simp
    moreover have "\<forall>y\<in>set (us @ best # vs). key x < key y"
      using True Cons.prems(2,3) by fastforce
    ultimately have "\<exists>us' vs'. (pre @ [x]) @ xs = us' @ min_loop key x xs # vs' \<and>
           (\<forall>y\<in>set us'. key (min_loop key x xs) < key y) \<and>
           (\<forall>y\<in>set vs'. key (min_loop key x xs) \<le> key y)"
      by (intro Cons.IH[of "pre @ [x]" "us @ best # vs" x "[]"]) auto
    with True show ?thesis by simp
  next
    case False
    have "pre @ [x] = us @ best # (vs @ [x])" using Cons.prems(1) by simp
    moreover have "\<forall>y\<in>set (vs @ [x]). key best \<le> key y"
      using False Cons.prems(3) by auto
    ultimately have "\<exists>us' vs'. (pre @ [x]) @ xs = us' @ min_loop key best xs # vs' \<and>
           (\<forall>y\<in>set us'. key (min_loop key best xs) < key y) \<and>
           (\<forall>y\<in>set vs'. key (min_loop key best xs) \<le> key y)"
      using Cons.prems(2) by (intro Cons.IH[of "pre @ [x]" us best "vs @ [x]"]) auto
    with False show ?thesis by simp
  qed
qed

lemma max_loop_split:
  assumes "pre = us @ best # vs" "\<forall>y\<in>set us. key y < key best" "\<forall>y\<in>set vs. key y \<le> key best"
  shows "\<exists>us' vs'. pre @ xs = us' @ max_loop key best xs # vs' \<and>
           (\<forall>y\<in>set us'. key y < key (max_loop key best xs)) \<and>
           (\<forall>y\<in>set vs'. key y \<le> key (max_loop key best xs))"
  using assms
proof (induction xs arbitrary: pre best us vs)
  case Nil
  then show ?case by auto
next
  case (Cons x xs)
  show ?case
  proof (cases "key best < key x")
    case True
    have "pre @ [x] = (us @ best # vs) @ x # []" using Cons.prems(1) by simp
    moreover have "\<forall>y\<in>set (us @ best # vs). key y < key x"
      using True Cons.prems(2,3) by fastforce
    ultimately have "\<exists>us' vs'. (pre @ [x]) @ xs = us' @ max_loop key x xs # vs' \<and>
           (\<forall>y\<in>set us'. key y < key (max_loop key x xs)) \<and>
           (\<forall>y\<in>set vs'. key y \<le> key (max_loop key x xs))"
      by (intro Cons.IH[of "pre @ [x]" "us @ best # vs" x "[]"]) auto
    with True show ?thesis by simp
  next
    case False
    have "pre @ [x] = us @ best # (vs @ [x])" using Cons.prems(1) by simp
    moreover have "\<forall>y\<in>set (vs @ [x]). key y \<le> key best"
      using False Cons.prems(3) by auto
    ultimately have "\<exists>us' vs'. (pre @ [x]) @ xs = us' @ max_loop key best xs # vs' \<and>
           (\<forall>y\<in>set us'. key y < key (max_loop key best xs)) \<and>
           (\<forall>y\<in>set vs'. key y \<le> key (max_loop key best xs))"
      using Cons.prems(2) by (intro Cons.IH[of "pre @ [x]" us best "vs @ [x]"]) auto
    with False show ?thesis by simp
  qed
qed

lemma find_first_split:
  "\<forall>y\<in>set us. \<not> P y \<Longrightarrow> P m \<Longrightarrow> List.find P (us @ m # vs) = Some m"
  by (induction us) auto

lemma first_min_of_split:
  fixes key :: "'a \<Rightarrow> int"
  assumes "xs = us @ m # vs" "\<forall>y\<in>set us. key m < key y" "\<forall>y\<in>set vs. key m \<le> key y"
  shows "Min (key ` set xs) = key m" "List.find (\<lambda>x. key x = Min (key ` set xs)) xs = Some m"
proof -
  show a: "Min (key ` set xs) = key m"
    using assms by (intro Min_eqI) (auto intro: less_imp_le)
  have "List.find (\<lambda>x. key x = key m) (us @ m # vs) = Some m"
    using assms(2) by (intro find_first_split) auto
  then show "List.find (\<lambda>x. key x = Min (key ` set xs)) xs = Some m"
    unfolding a by (simp add: assms(1))
qed

lemma first_max_of_split:
  fixes key :: "'a \<Rightarrow> int"
  assumes "xs = us @ m # vs" "\<forall>y\<in>set us. key y < key m" "\<forall>y\<in>set vs. key y \<le> key m"
  shows "Max (key ` set xs) = key m" "List.find (\<lambda>x. key x = Max (key ` set xs)) xs = Some m"
proof -
  show a: "Max (key ` set xs) = key m"
    using assms by (intro Max_eqI) (auto intro: less_imp_le)
  have "List.find (\<lambda>x. key x = key m) (us @ m # vs) = Some m"
    using assms(2) by (intro find_first_split) auto
  then show "List.find (\<lambda>x. key x = Max (key ` set xs)) xs = Some m"
    unfolding a by (simp add: assms(1))
qed

lemma py_min_first:
  assumes "xs \<noteq> []"
  shows "\<exists>m. py_min key xs = Inr m \<and> Min (key ` set xs) = key m \<and>
             List.find (\<lambda>x. key x = Min (key ` set xs)) xs = Some m"
proof -
  from assms obtain b rest where xs: "xs = b # rest" by (cases xs) auto
  have "\<exists>us' vs'. [b] @ rest = us' @ min_loop key b rest # vs' \<and>
           (\<forall>y\<in>set us'. key (min_loop key b rest) < key y) \<and>
           (\<forall>y\<in>set vs'. key (min_loop key b rest) \<le> key y)"
    by (rule min_loop_split[of "[b]" "[]" b "[]"]) auto
  then obtain us vs where "xs = us @ min_loop key b rest # vs"
     "\<forall>y\<in>set us. key (min_loop key b rest) < key y" "\<forall>y\<in>set vs. key (min_loop key b rest) \<le> key y"
    using xs by auto
  from first_min_of_split[OF this] show ?thesis
    by (simp add: py_min_def xs)
qed

lemma py_max_first:
  assumes "xs \<noteq> []"
  shows "\<exists>m. py_max key xs = Inr m \<and> Max (key ` set xs) = key m \<and>
             List.find (\<lambda>x. key x = Max (key ` set xs)) xs = Some m"
proof -
  from assms obtain b rest where xs: "xs = b # rest" by (cases xs) auto
  have "\<exists>us' vs'. [b] @ rest = us' @ max_loop key b rest # vs' \<and>
           (\<forall>y\<in>set us'. key y < key (max_loop key b rest)) \<and>
           (\<forall>y\<in>set vs'. key y \<le> key (max_loop key b rest))"
    by (rule max_loop_split[of "[b]" "[]" b "[]"]) auto
  then obtain us vs where "xs = us @ max_loop key b rest # vs"
     "\<forall>y\<in>set us. key y < key (max_loop key b rest)" "\<forall>y\<in>set vs. key y \<le> key (max_loop key b rest)"
    using xs by auto
  from first_max_of_split[OF this] show ?thesis
    by (simp add: py_max_def xs)
qed

lemmas catalog_defs = price_data_def product_A_def product_B_def product_C_def
lemmas strip_defs = strip_def isspace_def

lemma resolve_loop_none:
  "\<forall>n\<in>set products. map_of s (strip n) = None \<Longrightarrow> resolve_loop s products result = result"
  by (induction products arbitrary: result) (auto simp: Let_def)

lemma resolve_many_distinct: "distinct (map fst (resolve_many s products))"
  by (simp add: resolve_many_def resolve_loop_distinct)

lemma compare_ok:
  assumes "result \<noteq> []"
  shows "\<exists>c e. compare result now = (Comparison result c e now, 200) \<and>
           snd c = Min (snd ` set result) \<and> snd e = Max (snd ` set result) \<and>
           List.find (\<lambda>x. snd x = Min (snd ` set result)) result = Some c \<and>
           List.find (\<lambda>x. snd x = Max (snd ` set result)) result = Some e"
proof -
  from py_min_first[OF assms, of snd] obtain c where
    c: "py_min snd result = Inr c" "Min (snd ` set result) = snd c"
       "List.find (\<lambda>x. snd x = Min (snd ` set result)) result = Some c" by blast
  from py_max_first[OF assms, of snd] obtain e where
    e: "py_max snd result = Inr e" "Max (snd ` set result) = snd e"
       "List.find (\<lambda>x. snd x = Max (snd ` set result)) result = Some e" by blast
  have "compare result now = (Comparison result c e now, 200)"
    using assms c(1) e(1) by (simp add: compare_def)
  with c e show ?thesis by simp
qed

lemma iso_dates:
  "iso_date (ascii ''2024-01-01'') = Some (2024, 1, 1)"
  "iso_date (ascii ''2024-01-15'') = Some (2024, 1, 15)"
  "iso_date (ascii ''2024-02-01'') = Some (2024, 2, 1)"
  by (simp_all add: iso_date_def ascii_def digit_def)

section \<open>The comparison\<close>

text \<open>
  C1. For every non-empty mapping \<open>result\<close> handed to the comparison, the response is
  a success whose \<open>cheapest\<close> carries the minimum price of the mapping and whose
  \<open>most_expensive\<close> carries the maximum price; among several entries with that price
  each is the first one in the insertion order of the mapping.
\<close>

theorem compare_selects_first_extrema:
  "result \<noteq> [] \<Longrightarrow>
   \<exists>c e. compare result now = (Comparison result c e now, 200) \<and>
     snd c = Min (snd ` set result) \<and> snd e = Max (snd ` set result) \<and>
     List.find (\<lambda>x. snd x = Min (snd ` set result)) result = Some c \<and>
     List.find (\<lambda>x. snd x = Max (snd ` set result)) result = Some e"
  by (rule compare_ok)

theorem compare_selects_first_extrema_witness:
  "[([65], 1000), ([66], 1000 :: int)] \<noteq> [] \<and>
   compare [([65], 1000), ([66], 1000)] [] =
     (Comparison [([65], 1000), ([66], 1000)] ([65], 1000) ([65], 1000) [], 200)"
proof -
  have h: "[([65::nat], 1000), ([66], 1000 :: int)] \<noteq> []" by simp
  show ?thesis using h compare_selects_first_extrema [OF h, of "[]"] by auto
qed

text \<open>
  C2. When the list of names is empty, or no name of it (after trimming) is a key of the
  catalog, the loop resolves nothing and the handler answers with status 400 and the
  error of the invalid request, not with a comparison. The witness runs the empty list
  and the list of one blank and one empty string against the catalog of the source.
\<close>

theorem compare_no_valid_input:
  "products = [] \<or> (\<forall>n\<in>set products. map_of s (strip n) = None) \<Longrightarrow>
   resolve_many s products = [] \<and>
   fst (compare_products products now s) =
     (CompareInvalid invalid_names_error compare_example, 400)"
proof -
  assume "products = [] \<or> (\<forall>n\<in>set products. map_of s (strip n) = None)"
  then have "\<forall>n\<in>set products. map_of s (strip n) = None" by auto
  then have "resolve_many s products = []"
    by (simp add: resolve_many_def resolve_loop_none)
  then show ?thesis by (simp add: compare_products_def compare_def)
qed

theorem compare_no_valid_input_witness:
  "([[32], []] = [] \<or> (\<forall>n\<in>set [[32], []]. map_of (price_data [] [] []) (strip n) = None)) \<and>
   fst (compare_products [[32], []] [] (price_data [] [] [])) =
     (CompareInvalid invalid_names_error compare_example, 400) \<and>
   fst (compare_products [] [] (price_data [] [] [])) =
     (CompareInvalid invalid_names_error compare_example, 400)"
proof -
  have h: "[[32], []] = [] \<or> (\<forall>n\<in>set [[32], []]. map_of (price_data [] [] []) (strip n) = None)"
    by (simp add: catalog_defs strip_defs)
  have e: "[] = [] \<or> (\<forall>n\<in>set []. map_of (price_data [] [] []) (strip n) = None)"
    by simp
  show ?thesis
    using h compare_no_valid_input [OF h, of "[]"] compare_no_valid_input [OF e, of "[]"]
    by blast
qed

text \<open>
  At the level of the request: without the query parameter, with an empty one, and with
  one made of blanks and commas, \<open>split\<close> yields only names that trim to the empty
  string, and the handler answers 400 on the catalog of the source.
\<close>

lemma compare_prices_without_names:
  "fst (compare_prices None now (price_data tA tB tC)) =
     (CompareInvalid invalid_names_error compare_example, 400)"
  "fst (compare_prices (Some []) now (price_data tA tB tC)) =
     (CompareInvalid invalid_names_error compare_example, 400)"
  "fst (compare_prices (Some [32, 44, 12288, 44]) now (price_data tA tB tC)) =
     (CompareInvalid invalid_names_error compare_example, 400)"
  by (simp_all add: compare_prices_def compare_products_def compare_def resolve_many_def
      catalog_defs strip_defs)

text \<open>
  C3. The result of the resolving loop is a dict (its keys are distinct, so a name given
  twice has one entry), and as a mapping it sends a key \<open>k\<close> to the current price of
  the catalog's record exactly when \<open>k\<close> is in the catalog and is one of the given
  names with the whitespace removed from both ends: the name is \<open>k\<close> between two
  runs of whitespace, and \<open>k\<close> is empty or begins and ends with a code point that is
  not whitespace. Every other name is dropped. In the witness the only name that resolves
  to the second product is padded on both sides, the first product is named twice, once
  with a trailing newline, and one name is unknown.
\<close>

theorem resolve_many_mapping:
  "distinct (map fst (resolve_many s products)) \<and>
   (\<forall>k. map_of (resolve_many s products) k =
      (if \<exists>n\<in>set products. \<exists>l r. n = l @ k @ r \<and>
             (\<forall>c\<in>set l. isspace c) \<and> (\<forall>c\<in>set r. isspace c) \<and>
             (k = [] \<or> (\<not> isspace (hd k) \<and> \<not> isspace (last k)))
       then map_option current_price (map_of s k) else None))"
proof -
  have "k \<in> strip ` set products \<longleftrightarrow>
        (\<exists>n\<in>set products. \<exists>l r. n = l @ k @ r \<and>
             (\<forall>c\<in>set l. isspace c) \<and> (\<forall>c\<in>set r. isspace c) \<and>
             (k = [] \<or> (\<not> isspace (hd k) \<and> \<not> isspace (last k))))" for k
  proof -
    have "k \<in> strip ` set products \<longleftrightarrow> (\<exists>n\<in>set products. strip n = k)" by auto
    then show ?thesis by (simp only: strip_iff)
  qed
  moreover have "map_of (resolve_many s products) k =
     (if k \<in> strip ` set products then map_option current_price (map_of s k) else None)" for k
    by (simp add: resolve_many_def map_of_resolve_loop)
  ultimately show ?thesis using resolve_many_distinct by simp
qed

theorem resolve_many_mapping_witness:
  "(\<exists>n\<in>set [[32, 12288] @ product_B @ [9, 32], product_A, [88], product_A @ [10]].
      \<exists>l r. n = l @ product_B @ r \<and> (\<forall>c\<in>set l. isspace c) \<and> (\<forall>c\<in>set r. isspace c) \<and>
        (product_B = [] \<or> (\<not> isspace (hd product_B) \<and> \<not> isspace (last product_B)))) \<and>
   map_of (resolve_many (price_data [] [] [])
      [[32, 12288] @ product_B @ [9, 32], product_A, [88], product_A @ [10]]) product_B = Some 850 \<and>
   resolve_many (price_data [] [] [])
      [[32, 12288] @ product_B @ [9, 32], product_A, [88], product_A @ [10]] =
     [(product_B, 850), (product_A, 1200)]"
proof -
  let ?names = "[[32, 12288] @ product_B @ [9, 32], product_A, [88], product_A @ [10]]"
  have "[32, 12288] @ product_B @ [9, 32] = [32, 12288] @ product_B @ [9, 32] \<and>
        (\<forall>c\<in>set [32, 12288]. isspace c) \<and> (\<forall>c\<in>set [9, 32]. isspace c) \<and>
        (product_B = [] \<or> (\<not> isspace (hd product_B) \<and> \<not> isspace (last product_B)))"
    by (simp add: isspace_def product_B_def)
  then have h: "\<exists>n\<in>set ?names.
      \<exists>l r. n = l @ product_B @ r \<and> (\<forall>c\<in>set l. isspace c) \<and> (\<forall>c\<in>set r. isspace c) \<and>
        (product_B = [] \<or> (\<not> isspace (hd product_B) \<and> \<not> isspace (last product_B)))"
    by (intro bexI[of _ "[32, 12288] @ product_B @ [9, 32]"] exI[of _ "[32, 12288]"] exI[of _ "[9, 32]"]) simp_all
  have "map_of (resolve_many (price_data [] [] []) ?names) product_B =
          map_option current_price (map_of (price_data [] [] []) product_B)"
    using h resolve_many_mapping [of "price_data [] [] []" ?names] by simp
  then have m: "map_of (resolve_many (price_data [] [] []) ?names) product_B = Some 850"
    by (simp add: catalog_defs)
  have e: "resolve_many (price_data [] [] []) ?names = [(product_B, 850), (product_A, 1200)]"
    by (simp add: resolve_many_def catalog_defs strip_defs)
  show ?thesis using h m e by blast
qed

section \<open>Lookups of one product\<close>

text \<open>
  C4. For a name that is not a key of the catalog, \<open>get_product_price\<close> answers with
  status 404, and the list under \<open>available_products\<close> is the list of the catalog's
  keys, whose elements are exactly the catalog's names.
\<close>

theorem price_of_unknown_lists_catalog_names:
  "product \<notin> fst ` set s \<Longrightarrow>
   fst (get_product_price product now s) =
     (ProductNotFound (not_found_prefix @ product) (map fst s), 404) \<and>
   (\<exists>names. available_products (fst (fst (get_product_price product now s))) = Some names \<and>
      names = map fst s \<and> set names = dom (map_of s))"
  by (simp add: get_product_price_def map_of_eq_None_iff[THEN iffD2] dom_map_of_conv_image_fst)

theorem price_of_unknown_lists_catalog_names_witness:
  "ascii ''unknown'' \<notin> fst ` set (price_data [] [] []) \<and>
   fst (get_product_price (ascii ''unknown'') [] (price_data [] [] [])) =
     (ProductNotFound (not_found_prefix @ ascii ''unknown'') [product_A, product_B, product_C], 404)"
proof -
  have h: "ascii ''unknown'' \<notin> fst ` set (price_data [] [] [])"
    by (simp add: catalog_defs ascii_def)
  show ?thesis using h price_of_unknown_lists_catalog_names [OF h, of "[]"]
    by (simp add: price_data_def)
qed

text \<open>
  C5, as stated, fails: for the absent name \<open>unknown\<close> the history handler answers
  404 with a dict that has no list of names, and the comparison of \<open>unknown\<close> and
  a catalog name drops the absent name and succeeds.
\<close>

theorem history_of_unknown_counterexample:
  "snd (fst (get_price_history (ascii ''unknown'') [] (price_data [] [] []))) = 404 \<and>
   available_products (fst (fst (get_price_history (ascii ''unknown'') [] (price_data [] [] [])))) = None \<and>
   ascii ''unknown'' \<notin> fst ` set (price_data [] [] []) \<and>
   snd (fst (compare_products [ascii ''unknown'', product_A] [] (price_data [] [] []))) = 200"
  by (simp add: get_price_history_def compare_products_def compare_def resolve_many_def
      py_min_def py_max_def catalog_defs strip_defs ascii_def)

text \<open>
  C5, amended. For a name that is not a key of the catalog, \<open>get_product_price\<close> and
  \<open>get_price_history\<close> both answer with status 404 and \<open>success\<close> false, and the
  answer of \<open>get_product_price\<close> lists the catalog's names.
\<close>

theorem lookup_of_unknown_not_found:
  "product \<notin> fst ` set s \<Longrightarrow>
   snd (fst (get_product_price product now s)) = 404 \<and>
   \<not> success (fst (fst (get_product_price product now s))) \<and>
   available_products (fst (fst (get_product_price product now s))) = Some (map fst s) \<and>
   snd (fst (get_price_history product now s)) = 404 \<and>
   \<not> success (fst (fst (get_price_history product now s)))"
  by (simp add: get_product_price_def get_price_history_def map_of_eq_None_iff[THEN iffD2])

theorem lookup_of_unknown_not_found_witness:
  "ascii ''unknown'' \<notin> fst ` set (price_data [] [] []) \<and>
   snd (fst (get_product_price (ascii ''unknown'') [] (price_data [] [] []))) = 404 \<and>
   available_products (fst (fst (get_product_price (ascii ''unknown'') [] (price_data [] [] [])))) =
     Some [product_A, product_B, product_C] \<and>
   snd (fst (get_price_history (ascii ''unknown'') [] (price_data [] [] []))) = 404"
proof -
  have h: "ascii ''unknown'' \<notin> fst ` set (price_data [] [] [])"
    by (simp add: catalog_defs ascii_def)
  show ?thesis using h lookup_of_unknown_not_found [OF h, of "[]"]
    by (simp add: price_data_def)
qed

text \<open>
  C6. For every name of the catalog of the source, \<open>get_product_price\<close> succeeds with
  a record whose history is not empty and whose dates do not decrease, both as calendar
  dates and in Python's order of the texts.
\<close>

theorem catalog_history_nonempty_ordered:
  assumes "n \<in> fst ` set (price_data tA tB tC)"
  shows "\<exists>r. fst (get_product_price n now (price_data tA tB tC)) = (ProductPrice n r now, 200) \<and>
           history r \<noteq> [] \<and>
           sorted_wrt date_le (map date (history r)) \<and>
           sorted_wrt str_le (map date (history r))"
proof -
  from assms consider "n = product_A" | "n = product_B" | "n = product_C"
    by (auto simp: price_data_def)
  then show ?thesis
  proof cases
    case 1
    then show ?thesis
      by (simp add: get_product_price_def catalog_defs date_le_def iso_dates) (simp add: ascii_def)
  next
    case 2
    then show ?thesis
      by (simp add: get_product_price_def catalog_defs date_le_def iso_dates) (simp add: ascii_def)
  next
    case 3
    then show ?thesis
      by (simp add: get_product_price_def catalog_defs date_le_def iso_dates) (simp add: ascii_def)
  qed
qed

theorem catalog_history_nonempty_ordered_witness:
  "product_B \<in> fst ` set (price_data [] [] []) \<and>
   (\<exists>r. fst (get_product_price product_B [] (price_data [] [] [])) = (ProductPrice product_B r [], 200) \<and>
           history r \<noteq> [] \<and>
           sorted_wrt date_le (map date (history r)) \<and>
           sorted_wrt str_le (map date (history r)))"
proof -
  have h: "product_B \<in> fst ` set (price_data [] [] [])"
    by (simp add: price_data_def)
  show ?thesis using h catalog_history_nonempty_ordered [OF h, of "[]"] by blast
qed

section \<open>All products, and the state\<close>

text \<open>
  C7. On the catalog of the source, \<open>get_all_prices\<close> succeeds with a mapping whose
  keys are the three names of the initial dict, in the order of insertion and without
  repetition, and which has as many entries as the catalog.
\<close>

theorem get_all_returns_initial_names:
  "\<exists>d. fst (get_all_prices now (price_data tA tB tC)) = (AllPrices d now, 200) \<and>
     map fst d = [product_A, product_B, product_C] \<and>
     distinct (map fst d) \<and>
     length d = length (price_data tA tB tC)"
  by (simp add: get_all_prices_def catalog_defs)

text \<open>
  C8. Two calls of \<open>get_all_prices\<close> in a row, the second on the state the first
  leaves, return the same mapping under \<open>data\<close>; the two responses differ at most in
  the reading of the clock under \<open>timestamp\<close>.
\<close>

theorem get_all_idempotent:
  "\<exists>d. fst (get_all_prices t1 s) = (AllPrices d t1, 200) \<and>
     fst (get_all_prices t2 (snd (get_all_prices t1 s))) = (AllPrices d t2, 200)"
  by (simp add: get_all_prices_def)

text \<open>
  C9. Every handler returns the catalog it was given, whatever the response.
\<close>

theorem handlers_leave_catalog_unchanged:
  "snd (get_all_prices now s) = s \<and>
   snd (get_product_price product now s) = s \<and>
   snd (get_price_history product now s) = s \<and>
   snd (compare_products products now s) = s \<and>
   snd (compare_prices arg now s) = s"
  by (simp add: get_all_prices_def get_product_price_def get_price_history_def
      compare_products_def compare_prices_def split: option.splits)

text \<open>
  C10. In every comparison that \<open>compare_prices\<close> returns, the price under
  \<open>cheapest\<close> is at most the price under \<open>most_expensive\<close>, and both names are
  keys of the mapping under \<open>comparison\<close>, mapped to the prices reported.
\<close>

theorem compare_result_consistent:
  assumes "fst (compare_prices arg now s) = (Comparison comparison c e ts, code)"
  shows "snd c \<le> snd e \<and> map_of comparison (fst c) = Some (snd c) \<and>
         map_of comparison (fst e) = Some (snd e)"
proof -
  define result where "result = resolve_many s (split 44 (case arg of None \<Rightarrow> [] | Some a \<Rightarrow> a))"
  have r: "compare result now = (Comparison comparison c e ts, code)"
    using assms by (simp add: compare_prices_def compare_products_def result_def)
  then have ne: "result \<noteq> []" by (auto simp: compare_def)
  from compare_ok[OF ne, of now] r have
    eq: "comparison = result" and
    c: "snd c = Min (snd ` set result)" "List.find (\<lambda>x. snd x = Min (snd ` set result)) result = Some c" and
    e: "snd e = Max (snd ` set result)" "List.find (\<lambda>x. snd x = Max (snd ` set result)) result = Some e"
    by auto
  have cin: "c \<in> set result" using c(2) by (auto simp: find_Some_iff)
  have ein: "e \<in> set result" using e(2) by (auto simp: find_Some_iff)
  have d: "distinct (map fst result)" by (simp add: result_def resolve_many_distinct)
  have "Min (snd ` set result) \<le> snd e" using ein by (intro Min_le) auto
  then have "snd c \<le> snd e" by (simp add: c(1))
  moreover have "map_of result (fst c) = Some (snd c)" using d cin by simp
  moreover have "map_of result (fst e) = Some (snd e)" using d ein by simp
  ultimately show ?thesis by (simp add: eq)
qed

theorem compare_result_consistent_witness:
  "fst (compare_prices (Some (product_A @ [44, 32] @ product_B @ [44] @ product_C)) [] (price_data [] [] [])) =
     (Comparison [(product_A, 1200), (product_B, 850), (product_C, 1500)] (product_B, 850) (product_C, 1500) [], 200) \<and>
   snd (product_B, 850 :: int) \<le> snd (product_C, 1500 :: int) \<and>
   map_of [(product_A, 1200), (product_B, 850), (product_C, 1500 :: int)] (fst (product_B, 850 :: int)) = Some (snd (product_B, 850 :: int)) \<and>
   map_of [(product_A, 1200), (product_B, 850), (product_C, 1500 :: int)] (fst (product_C, 1500 :: int)) = Some (snd (product_C, 1500 :: int))"
proof -
  have h: "fst (compare_prices (Some (product_A @ [44, 32] @ product_B @ [44] @ product_C)) [] (price_data [] [] [])) =
     (Comparison [(product_A, 1200), (product_B, 850), (product_C, 1500)] (product_B, 850) (product_C, 1500) [], 200)"
    by (simp add: compare_prices_def compare_products_def compare_def py_min_def py_max_def
        resolve_many_def catalog_defs strip_defs)
  show ?thesis using h compare_result_consistent [OF h] by blast
qed

end
